theory Spec2Isabelle
  imports Complex_Main
begin

section \<open>The camera streaming server (cm4\_server/camera\_server.py)\<close>

text \<open>
  A shallow embedding of \<^verbatim>\<open>CameraStream\<close> and \<^verbatim>\<open>generate_mjpeg\<close>.
  The object's attributes are a record, every method takes the object and returns the
  updated one, and what a method does to the outside (sleeping, logging, stopping the
  camera, yielding a chunk) is returned as a list of effects, in order.
  Clock readings and durations are Python floats in the source; here they are reals.
  What the libraries return (the camera, the JPEG encoder, the clock) is an input of the
  model.
\<close>

subsection \<open>Configuration\<close>

definition RESOLUTION :: "nat \<times> nat" where
  "RESOLUTION = (1920, 1080)"

definition TARGET_FPS :: int where
  "TARGET_FPS = 10"

definition MIN_FPS :: int where
  "MIN_FPS = 5"

definition JPEG_QUALITY :: nat where
  "JPEG_QUALITY = 80"

subsection \<open>Library values\<close>

type_synonym bytes = string

text \<open>
  A raised exception. \<open>Exception\<close> is an instance of Python's \<^verbatim>\<open>Exception\<close> class,
  which \<^verbatim>\<open>except Exception\<close> catches; \<open>BaseException\<close> is one that is not
  (\<^verbatim>\<open>SystemExit\<close>, \<^verbatim>\<open>KeyboardInterrupt\<close>), which it lets through.
\<close>

datatype py_exn = Exception string | BaseException string

text \<open>A PIL image: \<^verbatim>\<open>Image.new(mode, size, color)\<close> or \<^verbatim>\<open>Image.fromarray(array)\<close>.\<close>

type_synonym array = "nat list"

datatype image =
    Image_new string "nat \<times> nat" "nat \<times> nat \<times> nat"
  | Image_fromarray array

text \<open>
  The encoder: \<^verbatim>\<open>img.save(buffer, format='JPEG', quality=q)\<close> followed by
  \<^verbatim>\<open>buffer.getvalue()\<close>, which gives the bytes or raises.
\<close>

type_synonym encoder = "image \<Rightarrow> nat \<Rightarrow> py_exn + bytes"

text \<open>The \<^verbatim>\<open>Picamera2\<close> object: its index, and whether it has been started and not stopped.\<close>

record Picamera2 =
  camera_num :: int
  started :: bool

datatype level = INFO | WARNING | ERROR

datatype log_msg =
    Camera_initialized
  | Failed_to_initialize
  | Error_capturing
  | Reducing_FPS int
  | Camera_stopped
  | Using_placeholder
  | Client_connected int
  | Client_disconnected int

datatype json = JStr string | JInt int | JNum real | JBool bool

datatype effect =
    Sleep real
  | Log level log_msg
  | Picam_stop
  | Yield bytes
  | Reply "(string \<times> json) list"

subsection \<open>CameraStream\<close>

record CameraStream =
  camera_name :: string
  camera_index :: int
  frame :: "bytes option"
  picam :: "Picamera2 option"
  running :: bool
  clients :: int
  fps :: int
  frame_count :: int
  start_time :: real
  last_frame_time :: real

text \<open>\<^verbatim>\<open>__init__\<close>; \<open>now\<close> is what \<^verbatim>\<open>time.time()\<close> returns.\<close>

definition CameraStream_init :: "string \<Rightarrow> int \<Rightarrow> real \<Rightarrow> CameraStream" where
  "CameraStream_init name index now =
     \<lparr>camera_name = name, camera_index = index, frame = None, picam = None,
      running = False, clients = 0, fps = TARGET_FPS, frame_count = 0,
      start_time = now, last_frame_time = 0\<rparr>"

text \<open>
  \<^verbatim>\<open>initialize_camera\<close>. The outcome of the library calls in its \<^verbatim>\<open>try\<close> block: they all
  return, or the constructor \<^verbatim>\<open>Picamera2(index)\<close> raises, or a later call
  (\<^verbatim>\<open>create_still_configuration\<close>, \<^verbatim>\<open>configure\<close>, \<^verbatim>\<open>start\<close>) raises once
  \<^verbatim>\<open>self.picam\<close> is assigned.
\<close>

datatype init_outcome = Init_returns | Ctor_raises py_exn | Setup_raises py_exn

definition init_except ::
  "py_exn \<Rightarrow> CameraStream \<Rightarrow> (py_exn + bool) \<times> CameraStream \<times> effect list" where
  "init_except e s =
     (case e of
        Exception m \<Rightarrow> (Inr False, s\<lparr>picam := None\<rparr>, [Log ERROR Failed_to_initialize])
      | BaseException m \<Rightarrow> (Inl e, s, []))"

fun initialize_camera ::
  "init_outcome \<Rightarrow> CameraStream \<Rightarrow> (py_exn + bool) \<times> CameraStream \<times> effect list" where
  "initialize_camera Init_returns s =
     (Inr True,
      s\<lparr>picam := Some \<lparr>camera_num = camera_index s, started = True\<rparr>\<rparr>,
      [Log INFO Camera_initialized])"
| "initialize_camera (Ctor_raises e) s = init_except e s"
| "initialize_camera (Setup_raises e) s =
     init_except e (s\<lparr>picam := Some \<lparr>camera_num = camera_index s, started = False\<rparr>\<rparr>)"

text \<open>\<^verbatim>\<open>_create_placeholder_frame\<close>: the frame is stored; nothing else is written.\<close>

definition create_placeholder_frame ::
  "encoder \<Rightarrow> CameraStream \<Rightarrow> (py_exn + unit) \<times> CameraStream \<times> effect list" where
  "create_placeholder_frame save s =
     (case save (Image_new ''RGB'' RESOLUTION (50, 50, 50)) 50 of
        Inl e \<Rightarrow> (Inl e, s, [])
      | Inr b \<Rightarrow> (Inr (), s\<lparr>frame := Some b\<rparr>, [Log INFO Using_placeholder]))"

text \<open>\<^verbatim>\<open>get_frame\<close>.\<close>

definition get_frame :: "CameraStream \<Rightarrow> bytes option" where
  "get_frame s = frame s"

text \<open>\<^verbatim>\<open>stop\<close>.\<close>

definition stop :: "CameraStream \<Rightarrow> CameraStream" where
  "stop s = s\<lparr>running := False\<rparr>"

subsection \<open>The capture loop\<close>

text \<open>
  Where the capture thread stands: before \<^verbatim>\<open>capture_loop\<close> is entered
  (\<open>Initializing\<close>), at the test of \<^verbatim>\<open>while self.running\<close> (\<open>Streaming\<close>), returned
  after the placeholder (\<open>Degraded\<close>), returned through \<^verbatim>\<open>finally\<close> after the test
  failed (\<open>Stopped\<close>), or ended by an exception that left \<^verbatim>\<open>capture_loop\<close>
  (\<open>Crashed\<close>).
\<close>

datatype loop_pc = Initializing | Streaming | Degraded | Stopped | Crashed py_exn

text \<open>The block under the lock in the loop: frame, counter and timestamp together.\<close>

definition publish :: "bytes \<Rightarrow> real \<Rightarrow> CameraStream \<Rightarrow> CameraStream" where
  "publish jpeg_bytes now s =
     s\<lparr>frame := Some jpeg_bytes, frame_count := frame_count s + 1, last_frame_time := now\<rparr>"

text \<open>The \<^verbatim>\<open>finally\<close> clause of the loop, leaving the thread at \<open>pc\<close>.\<close>

definition picam_stop :: "Picamera2 \<Rightarrow> Picamera2" where
  "picam_stop c = c\<lparr>started := False\<rparr>"

definition loop_finally :: "loop_pc \<Rightarrow> CameraStream \<Rightarrow> loop_pc \<times> CameraStream \<times> effect list" where
  "loop_finally pc s =
     (case picam s of
        None \<Rightarrow> (pc, s, [])
      | Some c \<Rightarrow> (pc, s\<lparr>picam := Some (picam_stop c)\<rparr>, [Picam_stop, Log INFO Camera_stopped]))"

text \<open>The handler of the inner \<^verbatim>\<open>try\<close>: an \<^verbatim>\<open>Exception\<close> is logged and the loop continues
  after 0.1 s; anything else leaves the loop through \<^verbatim>\<open>finally\<close>.\<close>

definition capture_except ::
  "py_exn \<Rightarrow> CameraStream \<Rightarrow> loop_pc \<times> CameraStream \<times> effect list" where
  "capture_except e s =
     (case e of
        Exception m \<Rightarrow> (Streaming, s, [Log ERROR Error_capturing, Sleep (1 / 10)])
      | BaseException m \<Rightarrow> loop_finally (Crashed e) s)"

text \<open>
  The adaptive part, after a frame has been stored: \<open>capture_time\<close> is
  \<^verbatim>\<open>time.time() - loop_start\<close>. The division \<^verbatim>\<open>1.0 / self.fps\<close> raises on 0, outside
  the inner \<^verbatim>\<open>try\<close>.
\<close>

definition adapt_fps :: "real \<Rightarrow> CameraStream \<Rightarrow> loop_pc \<times> CameraStream \<times> effect list" where
  "adapt_fps capture_time s =
     (if fps s = 0 then loop_finally (Crashed (Exception ''ZeroDivisionError'')) s
      else
        let target_interval = 1 / real_of_int (fps s);
            sleep_time = max 0 (target_interval - capture_time)
        in if sleep_time > 0 then (Streaming, s, [Sleep sleep_time])
           else if fps s > MIN_FPS
                then (Streaming, s\<lparr>fps := max MIN_FPS (fps s - 1)\<rparr>,
                      [Log WARNING (Reducing_FPS (max MIN_FPS (fps s - 1)))])
                else (Streaming, s, []))"

text \<open>
  What one pass of the loop meets: the clock at its three readings, and what
  \<^verbatim>\<open>capture_array()\<close> gives.
\<close>

record cycle_env =
  loop_start :: real
  capture_array :: "py_exn + array"
  frame_time :: real
  loop_end :: real

text \<open>One pass, from the test of \<^verbatim>\<open>while self.running\<close> to the end of the body.\<close>

definition capture_cycle ::
  "encoder \<Rightarrow> cycle_env \<Rightarrow> CameraStream \<Rightarrow> loop_pc \<times> CameraStream \<times> effect list" where
  "capture_cycle save env s =
     (if \<not> running s then loop_finally Stopped s
      else case capture_array env of
        Inl e \<Rightarrow> capture_except e s
      | Inr arr \<Rightarrow>
          (case save (Image_fromarray arr) JPEG_QUALITY of
             Inl e \<Rightarrow> capture_except e s
           | Inr jpeg_bytes \<Rightarrow>
               adapt_fps (loop_end env - loop_start env) (publish jpeg_bytes (frame_time env) s)))"

text \<open>The head of \<^verbatim>\<open>capture_loop\<close>, up to the loop.\<close>

definition capture_loop_enter ::
  "encoder \<Rightarrow> init_outcome \<Rightarrow> CameraStream \<Rightarrow> loop_pc \<times> CameraStream \<times> effect list" where
  "capture_loop_enter save io s =
     (case initialize_camera io (s\<lparr>running := True\<rparr>) of
        (Inl e, s', fx) \<Rightarrow> (Crashed e, s', fx)
      | (Inr ok, s', fx) \<Rightarrow>
          if \<not> ok then
            (case create_placeholder_frame save s' of
               (Inl e, s'', fx') \<Rightarrow> (Crashed e, s'', fx @ fx')
             | (Inr u, s'', fx') \<Rightarrow> (Degraded, s'', fx @ fx'))
          else (Streaming, s', fx))"

subsection \<open>Statistics\<close>

text \<open>Python's \<^verbatim>\<open>round(x, ndigits)\<close>, on the exact value: to the nearest, ties to even.\<close>

definition py_round :: "real \<Rightarrow> nat \<Rightarrow> real" where
  "py_round x ndigits =
     (let y = x * 10 ^ ndigits;
          f = \<lfloor>y\<rfloor>;
          d = y - of_int f;
          n = (if d < 1 / 2 then f else if 1 / 2 < d then f + 1
               else if even f then f else f + 1)
      in of_int n / 10 ^ ndigits)"

text \<open>
  Float arithmetic. A Python float is an IEEE 754 double: \<open>float_round x\<close> is the double
  nearest to \<open>x\<close>, ties to even, a significand of 53 bits scaled by the power of two
  below \<open>x\<close> (the range of the exponent is not modelled). The division
  \<^verbatim>\<open>self.frame_count / elapsed\<close> gives the double nearest to the quotient. The
  subtraction \<^verbatim>\<open>time.time() - self.start_time\<close> is exact on two readings of the clock.
\<close>

definition round_half_even :: "real \<Rightarrow> int" where
  "round_half_even y =
     (let f = \<lfloor>y\<rfloor>; d = y - of_int f
      in if d < 1 / 2 then f else if 1 / 2 < d then f + 1 else if even f then f else f + 1)"

definition float_round :: "real \<Rightarrow> real" where
  "float_round x =
     (if x = 0 then 0
      else let u = 2 powr (of_int \<lfloor>log 2 \<bar>x\<bar>\<rfloor> - 52)
           in of_int (round_half_even (x / u)) * u)"

definition float_div :: "int \<Rightarrow> real \<Rightarrow> real" where
  "float_div n x = float_round (real_of_int n / x)"

definition elapsed_at :: "real \<Rightarrow> CameraStream \<Rightarrow> real" where
  "elapsed_at now s = now - start_time s"

definition actual_fps_at :: "real \<Rightarrow> CameraStream \<Rightarrow> real" where
  "actual_fps_at now s =
     (if elapsed_at now s > 0 then float_div (frame_count s) (elapsed_at now s) else 0)"

text \<open>\<^verbatim>\<open>get_stats\<close>; \<open>now\<close> is what \<^verbatim>\<open>time.time()\<close> returns.\<close>

definition get_stats :: "real \<Rightarrow> CameraStream \<Rightarrow> (string \<times> json) list" where
  "get_stats now s =
     [(''camera'', JStr (camera_name s)),
      (''clients'', JInt (clients s)),
      (''target_fps'', JInt (fps s)),
      (''actual_fps'', JNum (py_round (actual_fps_at now s) 2)),
      (''frames_captured'', JInt (frame_count s)),
      (''running'', JBool (running s)),
      (''has_camera'', JBool (picam s \<noteq> None))]"

subsection \<open>The MJPEG generator\<close>

text \<open>
  Where a generator of \<^verbatim>\<open>generate_mjpeg\<close> stands: created and not yet run, inside the
  loop after a read that found no frame, suspended at \<^verbatim>\<open>yield\<close>, or finished.
\<close>

datatype gen_pc = Gen_created | Gen_polling | Gen_yielded | Gen_closed

definition multipart :: "bytes \<Rightarrow> bytes" where
  "multipart f =
     ''--frame'' @ [CHR 0x0D, CHR 0x0A] @
     ''Content-Type: image/jpeg'' @ [CHR 0x0D, CHR 0x0A, CHR 0x0D, CHR 0x0A] @
     f @ [CHR 0x0D, CHR 0x0A]"

text \<open>The \<^verbatim>\<open>finally\<close> clause of the generator.\<close>

definition gen_finally :: "CameraStream \<Rightarrow> gen_pc \<times> CameraStream \<times> effect list" where
  "gen_finally s =
     (Gen_closed, s\<lparr>clients := clients s - 1\<rparr>, [Log INFO (Client_disconnected (clients s - 1))])"

text \<open>One pass of \<^verbatim>\<open>while True\<close>, from the read of the frame.\<close>

definition gen_read :: "CameraStream \<Rightarrow> gen_pc \<times> CameraStream \<times> effect list" where
  "gen_read s =
     (case get_frame s of
        None \<Rightarrow> (Gen_polling, s, [Sleep (1 / 100)])
      | Some f \<Rightarrow> (Gen_yielded, s, [Yield (multipart f)]))"

text \<open>
  The generator runs on, its thread not being switched out inside an update of the
  counter: from its creation to the first read, from a failed read to the next, or from
  \<^verbatim>\<open>yield\<close> through the paced sleep to the next read. With a rate of 0 the division
  raises, with a negative one \<^verbatim>\<open>time.sleep\<close> does, and the \<^verbatim>\<open>finally\<close> clause runs.
\<close>

fun gen_advance :: "gen_pc \<Rightarrow> CameraStream \<Rightarrow> gen_pc \<times> CameraStream \<times> effect list" where
  "gen_advance Gen_created s =
     (let s' = s\<lparr>clients := clients s + 1\<rparr>;
          (pc, s'', fx) = gen_read s'
      in (pc, s'', Log INFO (Client_connected (clients s')) # fx))"
| "gen_advance Gen_polling s = gen_read s"
| "gen_advance Gen_yielded s =
     (if fps s \<le> 0 then gen_finally s
      else let (pc, s', fx) = gen_read s in (pc, s', Sleep (1 / real_of_int (fps s)) # fx))"
| "gen_advance Gen_closed s = (Gen_closed, s, [])"

text \<open>
  The generator is closed by its consumer (the viewer is gone, or a write to it failed):
  \<^verbatim>\<open>GeneratorExit\<close> is raised at the \<^verbatim>\<open>yield\<close>. A generator that never ran ends without
  running its body; one that is running cannot be closed.
\<close>

fun gen_close :: "gen_pc \<Rightarrow> CameraStream \<Rightarrow> gen_pc \<times> CameraStream \<times> effect list" where
  "gen_close Gen_created s = (Gen_closed, s, [])"
| "gen_close Gen_polling s = (Gen_polling, s, [])"
| "gen_close Gen_yielded s = gen_finally s"
| "gen_close Gen_closed s = (Gen_closed, s, [])"

text \<open>
  \<^verbatim>\<open>camera_stream.clients += 1\<close> and \<^verbatim>\<open>camera_stream.clients -= 1\<close> are each a load of
  the attribute, an addition and a store, with no lock held, and the generators run in one
  thread per request: the thread can be switched out between the load and the store.
  \<open>gen_load\<close> is the value computed from the counter as loaded, by the first statement of
  a generator not yet run, or by the \<^verbatim>\<open>finally\<close> clause of one closed at \<^verbatim>\<open>yield\<close>, which
  has then left its loop. \<open>gen_store\<close> is the store of that value, later, and what
  follows it: the log line, and for a generator that starts, its first read.
\<close>

definition gen_load :: "gen_pc \<Rightarrow> CameraStream \<Rightarrow> (gen_pc \<times> int) option" where
  "gen_load pc s =
     (case pc of
        Gen_created \<Rightarrow> Some (Gen_created, clients s + 1)
      | Gen_polling \<Rightarrow> None
      | Gen_yielded \<Rightarrow> Some (Gen_closed, clients s - 1)
      | Gen_closed \<Rightarrow> None)"

definition gen_store :: "gen_pc \<Rightarrow> int \<Rightarrow> CameraStream \<Rightarrow> gen_pc \<times> CameraStream \<times> effect list" where
  "gen_store pc v s =
     (case pc of
        Gen_closed \<Rightarrow> (Gen_closed, s\<lparr>clients := v\<rparr>, [Log INFO (Client_disconnected v)])
      | _ \<Rightarrow>
          (let s' = s\<lparr>clients := v\<rparr>;
               (pc', s'', fx) = gen_read s'
           in (pc', s'', Log INFO (Client_connected (clients s')) # fx)))"

subsection \<open>One feed: the capture thread, the viewers and the callers\<close>

text \<open>
  The steps of the threads that share one \<^verbatim>\<open>CameraStream\<close>, each one atomic: the
  capture thread enters \<^verbatim>\<open>capture_loop\<close> or makes one pass of its loop, the main thread
  calls \<^verbatim>\<open>stop\<close>, the generator of viewer \<open>i\<close> runs on or is closed, the \<^verbatim>\<open>/stats\<close>
  route is called. With \<open>Viewer_preempt i\<close> the thread of viewer \<open>i\<close> begins the update of
  the counter that is next in its generator and is switched out before the store: the
  value to store is kept in \<open>pending\<close>, and the thread stores it when it runs on. A
  generator in the middle of an update is running and cannot be closed.
\<close>

datatype event =
    Thread_start init_outcome
  | Thread_cycle cycle_env
  | Call_stop
  | Viewer_advance nat
  | Viewer_close nat
  | Call_stats real
  | Viewer_preempt nat

record system =
  feed :: CameraStream
  thread :: loop_pc
  viewers :: "nat \<Rightarrow> gen_pc"
  out :: "effect list"
  pending :: "nat \<Rightarrow> int option"

definition system_init :: "string \<Rightarrow> int \<Rightarrow> real \<Rightarrow> system" where
  "system_init name index now =
     \<lparr>feed = CameraStream_init name index now, thread = Initializing,
      viewers = (\<lambda>i. Gen_created), out = [], pending = (\<lambda>i. None)\<rparr>"

definition thread_to :: "system \<Rightarrow> loop_pc \<times> CameraStream \<times> effect list \<Rightarrow> system" where
  "thread_to sys r =
     sys\<lparr>feed := fst (snd r), thread := fst r, out := out sys @ snd (snd r)\<rparr>"

definition viewer_to :: "system \<Rightarrow> nat \<Rightarrow> gen_pc \<times> CameraStream \<times> effect list \<Rightarrow> system" where
  "viewer_to sys i r =
     sys\<lparr>feed := fst (snd r), viewers := (viewers sys)(i := fst r), out := out sys @ snd (snd r)\<rparr>"

fun step :: "encoder \<Rightarrow> event \<Rightarrow> system \<Rightarrow> system" where
  "step save (Thread_start io) sys =
     (if thread sys = Initializing then thread_to sys (capture_loop_enter save io (feed sys))
      else sys)"
| "step save (Thread_cycle env) sys =
     (if thread sys = Streaming then thread_to sys (capture_cycle save env (feed sys))
      else sys)"
| "step save Call_stop sys = sys\<lparr>feed := stop (feed sys)\<rparr>"
| "step save (Viewer_advance i) sys =
     (case pending sys i of
        None \<Rightarrow> viewer_to sys i (gen_advance (viewers sys i) (feed sys))
      | Some v \<Rightarrow>
          (viewer_to sys i (gen_store (viewers sys i) v (feed sys)))
            \<lparr>pending := (pending sys)(i := None)\<rparr>)"
| "step save (Viewer_close i) sys =
     (case pending sys i of
        None \<Rightarrow> viewer_to sys i (gen_close (viewers sys i) (feed sys))
      | Some v \<Rightarrow> sys)"
| "step save (Call_stats now) sys = sys\<lparr>out := out sys @ [Reply (get_stats now (feed sys))]\<rparr>"
| "step save (Viewer_preempt i) sys =
     (case pending sys i of
        Some v \<Rightarrow> sys
      | None \<Rightarrow>
          (case gen_load (viewers sys i) (feed sys) of
             None \<Rightarrow> sys
           | Some (pc, v) \<Rightarrow>
               sys\<lparr>viewers := (viewers sys)(i := pc), pending := (pending sys)(i := Some v)\<rparr>))"

fun run :: "encoder \<Rightarrow> event list \<Rightarrow> system \<Rightarrow> system" where
  "run save [] sys = sys"
| "run save (e # es) sys = run save es (step save e sys)"

text \<open>A sequence of frames stored by the loop, each with its timestamp, oldest first.\<close>

fun publishes :: "(bytes \<times> real) list \<Rightarrow> CameraStream \<Rightarrow> CameraStream" where
  "publishes [] s = s"
| "publishes (p # ps) s = publishes ps (publish (fst p) (snd p) s)"

subsection \<open>Notions used to state the properties\<close>

text \<open>What a pass of the loop raises in its inner \<^verbatim>\<open>try\<close>, if anything: the capture, or
  else the encoding of what was captured.\<close>

definition cycle_raises :: "encoder \<Rightarrow> cycle_env \<Rightarrow> py_exn option" where
  "cycle_raises save env =
     (case capture_array env of
        Inl e \<Rightarrow> Some e
      | Inr arr \<Rightarrow>
          (case save (Image_fromarray arr) JPEG_QUALITY of Inl e \<Rightarrow> Some e | Inr b \<Rightarrow> None))"

text \<open>A pass whose capture or encoding raises an \<^verbatim>\<open>Exception\<close>.\<close>

definition caught :: "encoder \<Rightarrow> cycle_env \<Rightarrow> bool" where
  "caught save env =
     (case cycle_raises save env of
        None \<Rightarrow> False
      | Some e \<Rightarrow> (case e of Exception m \<Rightarrow> True | BaseException m \<Rightarrow> False))"

fun is_cycle :: "event \<Rightarrow> bool" where
  "is_cycle (Thread_cycle env) = True"
| "is_cycle e = False"

fun is_preempt :: "event \<Rightarrow> bool" where
  "is_preempt (Viewer_preempt i) = True"
| "is_preempt e = False"

text \<open>A generator that has run its first statement and not yet its \<^verbatim>\<open>finally\<close> clause.\<close>

fun gen_open :: "gen_pc \<Rightarrow> bool" where
  "gen_open Gen_created = False"
| "gen_open Gen_polling = True"
| "gen_open Gen_yielded = True"
| "gen_open Gen_closed = False"

text \<open>The connections and disconnections among some effects, counted by their log lines,
  and the chunks yielded, in order.\<close>

fun connects :: "effect list \<Rightarrow> nat" where
  "connects [] = 0"
| "connects (Log l (Client_connected n) # fx) = Suc (connects fx)"
| "connects (x # fx) = connects fx"

fun disconnects :: "effect list \<Rightarrow> nat" where
  "disconnects [] = 0"
| "disconnects (Log l (Client_disconnected n) # fx) = Suc (disconnects fx)"
| "disconnects (x # fx) = disconnects fx"

fun yields :: "effect list \<Rightarrow> bytes list" where
  "yields [] = []"
| "yields (Yield b # fx) = b # yields fx"
| "yields (x # fx) = yields fx"

text \<open>What holds of a feed whose camera could not be opened, with placeholder \<open>b\<close>.\<close>

definition degraded_inv :: "string \<Rightarrow> bytes \<Rightarrow> system \<Rightarrow> bool" where
  "degraded_inv name b sys =
     (thread sys = Degraded \<and> frame (feed sys) = Some b \<and> picam (feed sys) = None \<and>
      frame_count (feed sys) = 0 \<and> fps (feed sys) = TARGET_FPS \<and>
      camera_name (feed sys) = name \<and>
      set (yields (out sys)) \<subseteq> {multipart b})"

text \<open>What holds of the counter as long as no thread is switched out inside an update of
  it: it is the number of open generators, and the log has one connection more than
  disconnections for each of them.\<close>

definition counter_inv :: "system \<Rightarrow> bool" where
  "counter_inv sys =
     (finite {j. gen_open (viewers sys j)} \<and>
      clients (feed sys) = int (card {j. gen_open (viewers sys j)}) \<and>
      connects (out sys) = disconnects (out sys) + card {j. gen_open (viewers sys j)} \<and>
      pending sys = (\<lambda>i. None))"


section \<open>Properties\<close>

subsection \<open>What each operation leaves alone\<close>

lemma loop_finally_fields:
  "fst (loop_finally pc s) = pc"
  "fps (fst (snd (loop_finally pc s))) = fps s"
  "frame (fst (snd (loop_finally pc s))) = frame s"
  "frame_count (fst (snd (loop_finally pc s))) = frame_count s"
  "last_frame_time (fst (snd (loop_finally pc s))) = last_frame_time s"
  "running (fst (snd (loop_finally pc s))) = running s"
  "clients (fst (snd (loop_finally pc s))) = clients s"
  "start_time (fst (snd (loop_finally pc s))) = start_time s"
  "camera_name (fst (snd (loop_finally pc s))) = camera_name s"
  "picam (fst (snd (loop_finally pc s))) = map_option picam_stop (picam s)"
  by (simp_all add: loop_finally_def split: option.split)

lemma capture_except_fields:
  "fps (fst (snd (capture_except e s))) = fps s"
  "frame (fst (snd (capture_except e s))) = frame s"
  "frame_count (fst (snd (capture_except e s))) = frame_count s"
  "last_frame_time (fst (snd (capture_except e s))) = last_frame_time s"
  "running (fst (snd (capture_except e s))) = running s"
  "clients (fst (snd (capture_except e s))) = clients s"
  "start_time (fst (snd (capture_except e s))) = start_time s"
  "camera_name (fst (snd (capture_except e s))) = camera_name s"
  by (simp_all add: capture_except_def loop_finally_fields split: py_exn.split)

lemma adapt_fps_fields:
  "frame (fst (snd (adapt_fps d s))) = frame s"
  "frame_count (fst (snd (adapt_fps d s))) = frame_count s"
  "last_frame_time (fst (snd (adapt_fps d s))) = last_frame_time s"
  "running (fst (snd (adapt_fps d s))) = running s"
  "clients (fst (snd (adapt_fps d s))) = clients s"
  "start_time (fst (snd (adapt_fps d s))) = start_time s"
  "camera_name (fst (snd (adapt_fps d s))) = camera_name s"
  by (simp_all add: adapt_fps_def Let_def loop_finally_fields)

lemma adapt_fps_le: "fps (fst (snd (adapt_fps d s))) \<le> fps s"
  by (simp add: adapt_fps_def Let_def loop_finally_fields)

lemma adapt_fps_ge: "MIN_FPS \<le> fps s \<Longrightarrow> MIN_FPS \<le> fps (fst (snd (adapt_fps d s)))"
  by (simp add: adapt_fps_def Let_def loop_finally_fields)

lemma capture_cycle_fields:
  "running (fst (snd (capture_cycle save env s))) = running s"
  "clients (fst (snd (capture_cycle save env s))) = clients s"
  "start_time (fst (snd (capture_cycle save env s))) = start_time s"
  "camera_name (fst (snd (capture_cycle save env s))) = camera_name s"
  by (simp_all add: capture_cycle_def loop_finally_fields capture_except_fields adapt_fps_fields
      publish_def split: sum.split)

lemma capture_cycle_fps_le: "fps (fst (snd (capture_cycle save env s))) \<le> fps s"
  using adapt_fps_le [of "loop_end env - loop_start env" "publish jpeg t s" for jpeg t]
  by (simp add: capture_cycle_def loop_finally_fields capture_except_fields publish_def
      split: sum.split)

lemma capture_cycle_fps_ge:
  "MIN_FPS \<le> fps s \<Longrightarrow> MIN_FPS \<le> fps (fst (snd (capture_cycle save env s)))"
  by (simp add: capture_cycle_def loop_finally_fields capture_except_fields adapt_fps_ge publish_def
      split: sum.split)

lemma capture_loop_enter_fields:
  "fps (fst (snd (capture_loop_enter save io s))) = fps s"
  "frame_count (fst (snd (capture_loop_enter save io s))) = frame_count s"
  "last_frame_time (fst (snd (capture_loop_enter save io s))) = last_frame_time s"
  "clients (fst (snd (capture_loop_enter save io s))) = clients s"
  "start_time (fst (snd (capture_loop_enter save io s))) = start_time s"
  "camera_name (fst (snd (capture_loop_enter save io s))) = camera_name s"
  "running (fst (snd (capture_loop_enter save io s)))"
  by (cases io;
      simp add: capture_loop_enter_def init_except_def create_placeholder_frame_def
        split: sum.split py_exn.split)+

lemma gen_advance_fields:
  "fps (fst (snd (gen_advance pc s))) = fps s"
  "frame (fst (snd (gen_advance pc s))) = frame s"
  "frame_count (fst (snd (gen_advance pc s))) = frame_count s"
  "last_frame_time (fst (snd (gen_advance pc s))) = last_frame_time s"
  "running (fst (snd (gen_advance pc s))) = running s"
  "picam (fst (snd (gen_advance pc s))) = picam s"
  "start_time (fst (snd (gen_advance pc s))) = start_time s"
  "camera_name (fst (snd (gen_advance pc s))) = camera_name s"
  by (cases pc;
      simp add: gen_read_def gen_finally_def get_frame_def Let_def split: option.split)+

lemma gen_close_fields:
  "fps (fst (snd (gen_close pc s))) = fps s"
  "frame (fst (snd (gen_close pc s))) = frame s"
  "frame_count (fst (snd (gen_close pc s))) = frame_count s"
  "last_frame_time (fst (snd (gen_close pc s))) = last_frame_time s"
  "running (fst (snd (gen_close pc s))) = running s"
  "picam (fst (snd (gen_close pc s))) = picam s"
  "start_time (fst (snd (gen_close pc s))) = start_time s"
  "camera_name (fst (snd (gen_close pc s))) = camera_name s"
  by (cases pc; simp add: gen_finally_def)+

lemma gen_store_fields:
  "fps (fst (snd (gen_store pc v s))) = fps s"
  "frame (fst (snd (gen_store pc v s))) = frame s"
  "frame_count (fst (snd (gen_store pc v s))) = frame_count s"
  "last_frame_time (fst (snd (gen_store pc v s))) = last_frame_time s"
  "running (fst (snd (gen_store pc v s))) = running s"
  "picam (fst (snd (gen_store pc v s))) = picam s"
  "start_time (fst (snd (gen_store pc v s))) = start_time s"
  "camera_name (fst (snd (gen_store pc v s))) = camera_name s"
  by (cases pc;
      simp add: gen_store_def gen_read_def get_frame_def Let_def split: option.split)+

lemma step_start_time: "start_time (feed (step save e sys)) = start_time (feed sys)"
  by (cases e)
    (simp_all add: thread_to_def viewer_to_def capture_loop_enter_fields capture_cycle_fields
      gen_advance_fields gen_close_fields gen_store_fields stop_def
      split: option.split prod.split)

lemma run_start_time: "start_time (feed (run save es sys)) = start_time (feed sys)"
  by (induction es arbitrary: sys) (simp_all add: step_start_time)

lemma step_fps_le: "fps (feed (step save e sys)) \<le> fps (feed sys)"
  by (cases e)
    (simp_all add: thread_to_def viewer_to_def capture_loop_enter_fields capture_cycle_fps_le
      gen_advance_fields gen_close_fields gen_store_fields stop_def
      split: option.split prod.split)

lemma step_fps_ge: "MIN_FPS \<le> fps (feed sys) \<Longrightarrow> MIN_FPS \<le> fps (feed (step save e sys))"
  by (cases e)
    (simp_all add: thread_to_def viewer_to_def capture_loop_enter_fields capture_cycle_fps_ge
      gen_advance_fields gen_close_fields gen_store_fields stop_def
      split: option.split prod.split)

lemma run_fps_le: "fps (feed (run save es sys)) \<le> fps (feed sys)"
proof (induction es arbitrary: sys)
  case Nil
  show ?case by simp
next
  case (Cons e es)
  have "fps (feed (run save es (step save e sys))) \<le> fps (feed (step save e sys))"
    by (rule Cons.IH)
  also have "\<dots> \<le> fps (feed sys)" by (rule step_fps_le)
  finally show ?case by simp
qed

lemma run_fps_ge: "MIN_FPS \<le> fps (feed sys) \<Longrightarrow> MIN_FPS \<le> fps (feed (run save es sys))"
  by (induction es arbitrary: sys) (simp_all add: step_fps_ge)

lemma run_append: "run save (es @ es') sys = run save es' (run save es sys)"
  by (induction es arbitrary: sys) simp_all

lemma step_frame_count:
  "\<not> is_cycle e \<Longrightarrow> frame_count (feed (step save e sys)) = frame_count (feed sys)"
  by (cases e)
    (simp_all add: thread_to_def viewer_to_def capture_loop_enter_fields
      gen_advance_fields gen_close_fields gen_store_fields stop_def
      split: option.split prod.split)

lemma run_frame_count:
  "list_all (\<lambda>e. \<not> is_cycle e) es \<Longrightarrow>
     frame_count (feed (run save es sys)) = frame_count (feed sys)"
  by (induction es arbitrary: sys) (simp_all add: step_frame_count)

subsection \<open>A pass of the loop that raises\<close>

lemma capture_cycle_raises:
  "running s \<Longrightarrow> cycle_raises save env = Some e \<Longrightarrow>
     capture_cycle save env s = capture_except e s"
  by (auto simp: cycle_raises_def capture_cycle_def split: sum.splits)

lemma capture_cycle_stopped:
  "\<not> running s \<Longrightarrow> capture_cycle save env s = loop_finally Stopped s"
  by (simp add: capture_cycle_def)

lemma capture_cycle_caught:
  "running s \<Longrightarrow> cycle_raises save env = Some (Exception m) \<Longrightarrow>
     capture_cycle save env s = (Streaming, s, [Log ERROR Error_capturing, Sleep (1 / 10)])"
  by (simp add: capture_cycle_raises capture_except_def)

lemma step_caught:
  assumes "thread sys = Streaming" "running (feed sys)"
    and "cycle_raises save env = Some (Exception m)"
  shows "step save (Thread_cycle env) sys =
     sys\<lparr>out := out sys @ [Log ERROR Error_capturing, Sleep (1 / 10)]\<rparr>"
  using assms by (simp add: capture_cycle_caught thread_to_def)

lemma run_caught:
  "thread sys = Streaming \<Longrightarrow> running (feed sys) \<Longrightarrow> list_all (caught save) envs \<Longrightarrow>
   run save (map Thread_cycle envs) sys =
     sys\<lparr>out := out sys @
       concat (map (\<lambda>env. [Log ERROR Error_capturing, Sleep (1 / 10)]) envs)\<rparr>"
proof (induction envs arbitrary: sys)
  case Nil
  show ?case by simp
next
  case (Cons env envs)
  from Cons.prems(3) obtain m where m: "cycle_raises save env = Some (Exception m)"
    by (auto simp: caught_def split: option.splits py_exn.splits)
  let ?sys' = "sys\<lparr>out := out sys @ [Log ERROR Error_capturing, Sleep (1 / 10)]\<rparr>"
  have st: "step save (Thread_cycle env) sys = ?sys'"
    using Cons.prems(1,2) m by (rule step_caught)
  have "run save (map Thread_cycle envs) ?sys' =
      ?sys'\<lparr>out := out ?sys' @
        concat (map (\<lambda>env. [Log ERROR Error_capturing, Sleep (1 / 10)]) envs)\<rparr>"
    using Cons.prems by (intro Cons.IH) simp_all
  then show ?case by (simp only: list.map run.simps st) simp
qed

subsection \<open>The rate governor\<close>

text \<open>
  C1. A pass that captured and encoded a frame, measured at \<open>d = loop_end - loop_start\<close>
  with the rate \<open>fps s\<close> at least \<open>MIN_FPS\<close>: if \<open>d\<close> is below \<open>1 / fps s\<close> the loop sleeps
  \<open>1 / fps s - d\<close> and the rate is unchanged; otherwise the rate becomes
  \<open>max MIN_FPS (fps s - 1)\<close>, the loop goes on and no sleep is taken.
\<close>

theorem governor_step:
  assumes run: "running s"
    and cap: "capture_array env = Inr arr"
    and enc: "save (Image_fromarray arr) JPEG_QUALITY = Inr jpeg"
    and lo: "MIN_FPS \<le> fps s"
  shows "(loop_end env - loop_start env < 1 / real_of_int (fps s) \<longrightarrow>
           capture_cycle save env s =
             (Streaming, publish jpeg (frame_time env) s,
              [Sleep (1 / real_of_int (fps s) - (loop_end env - loop_start env))]) \<and>
           fps (publish jpeg (frame_time env) s) = fps s) \<and>
         (1 / real_of_int (fps s) \<le> loop_end env - loop_start env \<longrightarrow>
           fst (capture_cycle save env s) = Streaming \<and>
           fps (fst (snd (capture_cycle save env s))) = max MIN_FPS (fps s - 1) \<and>
           MIN_FPS \<le> fps (fst (snd (capture_cycle save env s))) \<and>
           (\<forall>t. Sleep t \<notin> set (snd (snd (capture_cycle save env s)))))"
proof -
  from lo have nz: "fps s \<noteq> 0" by (simp add: MIN_FPS_def)
  show ?thesis
    using run cap enc lo nz
    by (auto simp: capture_cycle_def adapt_fps_def publish_def Let_def MIN_FPS_def max_def)
qed

text \<open>The scenario of the specification: 150 ms at rate 10 gives rate 9 and no sleep; and
  50 ms at rate 10 gives a sleep of 50 ms.\<close>

theorem governor_step_witness:
  "fps (fst (snd (capture_cycle (\<lambda>img q. Inr ''jpeg'')
      \<lparr>loop_start = 0, capture_array = Inr [], frame_time = 14 / 100, loop_end = 15 / 100\<rparr>
      ((CameraStream_init ''left'' 0 0)\<lparr>running := True\<rparr>)))) = 9
   \<and> (\<forall>t. Sleep t \<notin> set (snd (snd (capture_cycle (\<lambda>img q. Inr ''jpeg'')
      \<lparr>loop_start = 0, capture_array = Inr [], frame_time = 14 / 100, loop_end = 15 / 100\<rparr>
      ((CameraStream_init ''left'' 0 0)\<lparr>running := True\<rparr>)))))
   \<and> capture_cycle (\<lambda>img q. Inr ''jpeg'')
      \<lparr>loop_start = 0, capture_array = Inr [], frame_time = 4 / 100, loop_end = 5 / 100\<rparr>
      ((CameraStream_init ''left'' 0 0)\<lparr>running := True\<rparr>)
     = (Streaming, publish ''jpeg'' (4 / 100) ((CameraStream_init ''left'' 0 0)\<lparr>running := True\<rparr>),
        [Sleep (5 / 100)])"
  using governor_step [of "(CameraStream_init ''left'' 0 0)\<lparr>running := True\<rparr>"
      "\<lparr>loop_start = 0, capture_array = Inr [], frame_time = 14 / 100, loop_end = 15 / 100\<rparr>"
      "[]" "\<lambda>img q. Inr ''jpeg''" "''jpeg''"]
    governor_step [of "(CameraStream_init ''left'' 0 0)\<lparr>running := True\<rparr>"
      "\<lparr>loop_start = 0, capture_array = Inr [], frame_time = 4 / 100, loop_end = 5 / 100\<rparr>"
      "[]" "\<lambda>img q. Inr ''jpeg''" "''jpeg''"]
  by (simp add: CameraStream_init_def TARGET_FPS_def MIN_FPS_def)

text \<open>
  C3. The rate starts at \<open>TARGET_FPS\<close>; after any events it lies between \<open>MIN_FPS\<close> and
  \<open>TARGET_FPS\<close>; no event raises it, nor does any further sequence of events.
\<close>

theorem rate_ratchet:
  "fps (feed (system_init name index now)) = TARGET_FPS \<and>
   MIN_FPS \<le> fps (feed (run save es (system_init name index now))) \<and>
   fps (feed (run save es (system_init name index now))) \<le> TARGET_FPS \<and>
   fps (feed (step save e (run save es (system_init name index now))))
     \<le> fps (feed (run save es (system_init name index now))) \<and>
   fps (feed (run save (es @ es') (system_init name index now)))
     \<le> fps (feed (run save es (system_init name index now)))"
proof -
  have i: "fps (feed (system_init name index now)) = TARGET_FPS"
    by (simp add: system_init_def CameraStream_init_def)
  have lo: "MIN_FPS \<le> fps (feed (run save es (system_init name index now)))"
    by (rule run_fps_ge) (simp add: i MIN_FPS_def TARGET_FPS_def)
  have hi: "fps (feed (run save es (system_init name index now))) \<le> TARGET_FPS"
    using run_fps_le [of save es "system_init name index now"] by (simp add: i)
  show ?thesis
    by (simp only: i lo hi step_fps_le run_append run_fps_le simp_thms)
qed

subsection \<open>The frame cache\<close>




subsection \<open>Failures of a pass\<close>

text \<open>
  C5. In a running loop, passes whose capture or encoding raises an \<^verbatim>\<open>Exception\<close>, however
  many in a row, each log an error and sleep 0.1 s; the thread stays in the loop and the
  feed is as it was.
\<close>

theorem capture_errors_not_fatal:
  assumes "thread sys = Streaming" and "running (feed sys)"
    and "list_all (caught save) envs"
  shows "run save (map Thread_cycle envs) sys =
           sys\<lparr>out := out sys @
             concat (map (\<lambda>env. [Log ERROR Error_capturing, Sleep (1 / 10)]) envs)\<rparr> \<and>
         thread (run save (map Thread_cycle envs) sys) = Streaming \<and>
         feed (run save (map Thread_cycle envs) sys) = feed sys"
  using run_caught [OF assms] assms(1) by simp

theorem capture_errors_not_fatal_witness:
  "thread (run (\<lambda>img q. Inl (Exception ''encoder''))
      (map Thread_cycle
        [\<lparr>loop_start = 0, capture_array = Inl (Exception ''timeout''), frame_time = 0, loop_end = 0\<rparr>,
         \<lparr>loop_start = 1, capture_array = Inr [], frame_time = 1, loop_end = 1\<rparr>])
      (step (\<lambda>img q. Inl (Exception ''encoder'')) (Thread_start Init_returns)
        (system_init ''left'' 0 0))) = Streaming"
proof -
  let ?save = "\<lambda>(img::image) (q::nat). (Inl (Exception ''encoder'') :: py_exn + bytes)"
  let ?sys = "step ?save (Thread_start Init_returns) (system_init ''left'' 0 0)"
  let ?envs = "[\<lparr>loop_start = 0, capture_array = Inl (Exception ''timeout''), frame_time = 0,
           loop_end = 0\<rparr>,
         \<lparr>loop_start = 1, capture_array = Inr [], frame_time = 1, loop_end = (1::real)\<rparr>]"
  have 1: "thread ?sys = Streaming"
    by (simp add: system_init_def capture_loop_enter_def thread_to_def)
  have 2: "running (feed ?sys)"
    by (simp add: system_init_def capture_loop_enter_def thread_to_def)
  have 3: "list_all (caught ?save) ?envs"
    by (simp add: caught_def cycle_raises_def)
  from capture_errors_not_fatal [OF 1 2 3] show ?thesis by (elim conjE)
qed

text \<open>
  C9. A pass whose capture or encoding raises leaves the frame, the frame counter and the
  timestamp as they were; and whenever a pass changes the frame, the new frame is the
  whole of what the encoder returned.
\<close>

theorem failed_cycle_atomic:
  "(cycle_raises save env = Some e \<longrightarrow>
      frame (fst (snd (capture_cycle save env s))) = frame s \<and>
      frame_count (fst (snd (capture_cycle save env s))) = frame_count s \<and>
      last_frame_time (fst (snd (capture_cycle save env s))) = last_frame_time s) \<and>
   (frame (fst (snd (capture_cycle save env s))) = frame s \<or>
      (\<exists>arr jpeg. capture_array env = Inr arr \<and>
         save (Image_fromarray arr) JPEG_QUALITY = Inr jpeg \<and>
         frame (fst (snd (capture_cycle save env s))) = Some jpeg))"
proof -
  have a: "cycle_raises save env = Some e \<Longrightarrow>
      frame (fst (snd (capture_cycle save env s))) = frame s \<and>
      frame_count (fst (snd (capture_cycle save env s))) = frame_count s \<and>
      last_frame_time (fst (snd (capture_cycle save env s))) = last_frame_time s"
    by (cases "running s")
      (simp_all add: capture_cycle_raises capture_cycle_stopped capture_except_fields
        loop_finally_fields)
  have c: "frame (fst (snd (capture_cycle save env s))) = frame s \<or>
      (\<exists>arr jpeg. capture_array env = Inr arr \<and>
         save (Image_fromarray arr) JPEG_QUALITY = Inr jpeg \<and>
         frame (fst (snd (capture_cycle save env s))) = Some jpeg)"
    by (simp add: capture_cycle_def loop_finally_fields capture_except_fields adapt_fps_fields
        publish_def split: sum.split)
  from a c show ?thesis by blast
qed

theorem failed_cycle_atomic_witness:
  "frame (fst (snd (capture_cycle (\<lambda>img q. Inl (Exception ''encoder''))
      \<lparr>loop_start = 0, capture_array = Inr [], frame_time = 1, loop_end = 2\<rparr>
      (publish ''old'' 0 ((CameraStream_init ''left'' 0 0)\<lparr>running := True\<rparr>))))) = Some ''old'' \<and>
   frame_count (fst (snd (capture_cycle (\<lambda>img q. Inl (Exception ''encoder''))
      \<lparr>loop_start = 0, capture_array = Inr [], frame_time = 1, loop_end = 2\<rparr>
      (publish ''old'' 0 ((CameraStream_init ''left'' 0 0)\<lparr>running := True\<rparr>))))) = 1 \<and>
   last_frame_time (fst (snd (capture_cycle (\<lambda>img q. Inl (Exception ''encoder''))
      \<lparr>loop_start = 0, capture_array = Inr [], frame_time = 1, loop_end = 2\<rparr>
      (publish ''old'' 0 ((CameraStream_init ''left'' 0 0)\<lparr>running := True\<rparr>))))) = 0"
proof -
  let ?save = "\<lambda>(img::image) (q::nat). (Inl (Exception ''encoder'') :: py_exn + bytes)"
  let ?env = "\<lparr>loop_start = 0, capture_array = Inr [], frame_time = 1, loop_end = (2::real)\<rparr>"
  let ?s = "publish ''old'' 0 ((CameraStream_init ''left'' 0 0)\<lparr>running := True\<rparr>)"
  have r: "cycle_raises ?save ?env = Some (Exception ''encoder'')"
    by (simp add: cycle_raises_def)
  have v: "frame ?s = Some ''old''" "frame_count ?s = 1" "last_frame_time ?s = 0"
    by (simp_all add: publish_def CameraStream_init_def)
  from failed_cycle_atomic [of ?save ?env "Exception ''encoder''" ?s] r
  show ?thesis by (simp only: v simp_thms)
qed

text \<open>
  C10. A pass whose capture or encoding raises leaves the rate as it was and does the same
  whatever the clock read at its start and end; when an \<^verbatim>\<open>Exception\<close> is raised in a running
  loop, the pass logs, sleeps 0.1 s and continues; and a pass that changes the rate raised
  nothing in its capture and encoding.
\<close>

theorem failed_cycle_keeps_rate:
  "(cycle_raises save env = Some e \<longrightarrow>
      fps (fst (snd (capture_cycle save env s))) = fps s \<and>
      capture_cycle save (env\<lparr>loop_start := t0, loop_end := t1\<rparr>) s = capture_cycle save env s) \<and>
   (running s \<and> cycle_raises save env = Some (Exception m) \<longrightarrow>
      capture_cycle save env s = (Streaming, s, [Log ERROR Error_capturing, Sleep (1 / 10)])) \<and>
   (fps (fst (snd (capture_cycle save env s))) \<noteq> fps s \<longrightarrow> cycle_raises save env = None)"
proof -
  have t: "cycle_raises save (env\<lparr>loop_start := t0, loop_end := t1\<rparr>) = cycle_raises save env"
    by (simp add: cycle_raises_def)
  have a: "cycle_raises save env = Some e' \<Longrightarrow>
      fps (fst (snd (capture_cycle save env s))) = fps s \<and>
      capture_cycle save (env\<lparr>loop_start := t0, loop_end := t1\<rparr>) s = capture_cycle save env s"
    for e'
    using t
    by (cases "running s")
      (simp_all add: capture_cycle_raises capture_cycle_stopped capture_except_fields
        loop_finally_fields)
  have b: "running s \<Longrightarrow> cycle_raises save env = Some (Exception m) \<Longrightarrow>
      capture_cycle save env s = (Streaming, s, [Log ERROR Error_capturing, Sleep (1 / 10)])"
    by (rule capture_cycle_caught)
  have c: "fps (fst (snd (capture_cycle save env s))) \<noteq> fps s \<Longrightarrow> cycle_raises save env = None"
    using a by (cases "cycle_raises save env") auto
  from a b c show ?thesis by blast
qed

theorem failed_cycle_keeps_rate_witness:
  "capture_cycle (\<lambda>img q. Inr ''jpeg'')
      \<lparr>loop_start = 0, capture_array = Inl (Exception ''timeout''), frame_time = 0, loop_end = 30\<rparr>
      ((CameraStream_init ''left'' 0 0)\<lparr>running := True\<rparr>) =
    (Streaming, (CameraStream_init ''left'' 0 0)\<lparr>running := True\<rparr>,
     [Log ERROR Error_capturing, Sleep (1 / 10)]) \<and>
   fps (fst (snd (capture_cycle (\<lambda>img q. Inr ''jpeg'')
      \<lparr>loop_start = 0, capture_array = Inl (Exception ''timeout''), frame_time = 0, loop_end = 30\<rparr>
      ((CameraStream_init ''left'' 0 0)\<lparr>running := True\<rparr>)))) = 10 \<and>
   cycle_raises (\<lambda>img q. Inr ''jpeg'')
      \<lparr>loop_start = 0, capture_array = Inr [], frame_time = 1, loop_end = 1\<rparr> = None"
proof -
  let ?save = "\<lambda>(img::image) (q::nat). (Inr ''jpeg'' :: py_exn + bytes)"
  let ?env = "\<lparr>loop_start = 0, capture_array = Inl (Exception ''timeout''), frame_time = 0,
      loop_end = (30::real)\<rparr>"
  let ?slow = "\<lparr>loop_start = 0, capture_array = Inr [], frame_time = 1, loop_end = (1::real)\<rparr>"
  let ?s = "(CameraStream_init ''left'' 0 0)\<lparr>running := True\<rparr>"
  have r: "cycle_raises ?save ?env = Some (Exception ''timeout'')"
    by (simp add: cycle_raises_def)
  have v: "running ?s" "fps ?s = 10"
    by (simp_all add: CameraStream_init_def TARGET_FPS_def)
  have c: "fps (fst (snd (capture_cycle ?save ?slow ?s))) \<noteq> fps ?s"
    by (simp add: capture_cycle_def adapt_fps_def publish_def CameraStream_init_def
        TARGET_FPS_def MIN_FPS_def)
  from failed_cycle_keeps_rate [of ?save ?slow _ ?s] c
  have n: "cycle_raises ?save ?slow = None" by blast
  from failed_cycle_keeps_rate [of ?save ?env "Exception ''timeout''" ?s _ _ "''timeout''"] r v n
  show ?thesis by (simp only: simp_thms fst_conv snd_conv)
qed

subsection \<open>Statistics\<close>

lemma py_round_grid: "\<exists>n::int. py_round x 2 = of_int n / 100"
  by (simp add: py_round_def Let_def)

lemma py_round_near: "\<bar>py_round x 2 - x\<bar> \<le> 1 / 200"
proof -
  define y where "y = x * 100"
  define f where "f = \<lfloor>y\<rfloor>"
  define d where "d = y - of_int f"
  define n where "n = (if d < 1 / 2 then f else if 1 / 2 < d then f + 1
               else if even f then f else f + 1)"
  have d: "0 \<le> d" "d < 1" unfolding d_def f_def by linarith+
  have r: "py_round x 2 = of_int n / 100"
    by (simp add: py_round_def Let_def n_def d_def f_def y_def)
  have "\<bar>of_int n - y\<bar> \<le> 1 / 2"
    using d by (auto simp: n_def d_def abs_if)
  then have "\<bar>of_int n / 100 - y / 100\<bar> \<le> 1 / 200"
    by (simp add: abs_if split: if_splits)
  then show ?thesis by (simp add: r y_def)
qed

lemma rhe_near: "\<bar>of_int (round_half_even y) - y\<bar> \<le> 1 / 2"
proof -
  define f where "f = \<lfloor>y\<rfloor>"
  define d where "d = y - of_int f"
  define n where "n = (if d < 1 / 2 then f else if 1 / 2 < d then f + 1
               else if even f then f else f + 1)"
  have d: "0 \<le> d" "d < 1" unfolding d_def f_def by linarith+
  have r: "round_half_even y = n"
    by (simp add: round_half_even_def Let_def n_def d_def f_def)
  have "\<bar>of_int n - y\<bar> \<le> 1 / 2"
    using d by (auto simp: n_def d_def abs_if)
  then show ?thesis by (simp add: r)
qed
lemma float_round_near: "\<bar>float_round x - x\<bar> \<le> \<bar>x\<bar> / 2 ^ 53"
proof (cases "x = 0")
  case True
  then show ?thesis by (simp add: float_round_def)
next
  case False
  define e where "e = \<lfloor>log 2 \<bar>x\<bar>\<rfloor>"
  define u :: real where "u = 2 powr (of_int e - 52)"
  have u0: "0 < u" by (simp add: u_def)
  have le: "2 powr (of_int e) \<le> \<bar>x\<bar>"
    using False floor_log_eq_powr_iff [of "\<bar>x\<bar>" 2 e] by (simp add: e_def)
  have u2: "u = 2 powr (of_int e) / 2 ^ 52"
    by (simp add: u_def powr_diff)
  have fr: "float_round x = of_int (round_half_even (x / u)) * u"
    using False by (simp add: float_round_def Let_def u_def e_def)
  have "of_int (round_half_even (x / u)) * u - x = (of_int (round_half_even (x / u)) - x / u) * u"
    using u0 by (simp add: field_simps)
  then have "\<bar>of_int (round_half_even (x / u)) * u - x\<bar> =
      \<bar>of_int (round_half_even (x / u)) - x / u\<bar> * u"
    using u0 by (simp only: abs_mult abs_of_pos)
  also have "\<dots> \<le> 1 / 2 * u"
    using rhe_near [of "x / u"] u0 by (intro mult_right_mono) simp_all
  also have "\<dots> = 2 powr (of_int e) / 2 ^ 53" by (simp add: u2)
  also have "\<dots> \<le> \<bar>x\<bar> / 2 ^ 53" using le by (simp add: divide_right_mono)
  finally show ?thesis by (simp add: fr)
qed
lemma float_div_near: "\<bar>float_div m x - real_of_int m / x\<bar> \<le> \<bar>real_of_int m / x\<bar> / 2 ^ 53"
  unfolding float_div_def by (rule float_round_near)

lemma floor_log2_3_40: "\<lfloor>log 2 (3 / 40)\<rfloor> = -4"
  by (simp add: floor_log_eq_powr_iff powr_neg_numeral)

lemma float_div_3_40: "float_div 3 40 = 5404319552844595 / 72057594037927936"
  by (simp add: float_div_def float_round_def floor_log2_3_40 round_half_even_def Let_def
      powr_neg_numeral)

lemma py_round_3_40: "py_round (5404319552844595 / 72057594037927936) 2 = 7 / 100"
  by (simp add: py_round_def Let_def)

lemma floor_log2_301_40: "\<lfloor>log 2 (301 / 40)\<rfloor> = 2"
  by (simp add: floor_log_eq_powr_iff)

text \<open>301 frames in 40 s: the float quotient is just above 7.525, which rounds to 7.53.\<close>

lemma float_div_301_40: "py_round (float_div 301 40) 2 = 753 / 100"
  by (simp add: float_div_def float_round_def floor_log2_301_40 round_half_even_def Let_def
      powr_neg_numeral py_round_def)

lemma get_stats_keys:
  "map fst (get_stats now s) =
     [''camera'', ''clients'', ''target_fps'', ''actual_fps'', ''frames_captured'', ''running'',
      ''has_camera'']"
  by (simp add: get_stats_def)

lemma get_stats_values:
  "map snd (get_stats now s) =
     [JStr (camera_name s), JInt (clients s), JInt (fps s),
      JNum (py_round (actual_fps_at now s) 2), JInt (frame_count s), JBool (running s),
      JBool (picam s \<noteq> None)]"
  by (simp add: get_stats_def)

text \<open>
  C7. A call of \<^verbatim>\<open>get_stats\<close> changes nothing of the feed, the thread or the viewers, and
  replies with seven fields: the name, the client counter, the rate, the rounded
  frames per second, the frame counter, the running flag and whether there is a camera.
  The elapsed time is \<open>now - start_time\<close>; when the clock is not before the start, the
  frames per second are the float quotient of the frame counter by the elapsed time, and 0
  when that is 0; the float quotient is within one part in \<open>2 ^ 53\<close> of the quotient; the
  reply has the frames per second rounded to a whole number of hundredths, within half a
  hundredth. Between two calls with no pass of the loop in between and a clock that does not
  go back, the elapsed time does not decrease and the frame counter is the same.
\<close>

theorem stats_computation:
  "step save (Call_stats now) sys = sys\<lparr>out := out sys @ [Reply (get_stats now (feed sys))]\<rparr> \<and>
   map fst (get_stats now s) =
     [''camera'', ''clients'', ''target_fps'', ''actual_fps'', ''frames_captured'', ''running'',
      ''has_camera''] \<and>
   map snd (get_stats now s) =
     [JStr (camera_name s), JInt (clients s), JInt (fps s),
      JNum (py_round (actual_fps_at now s) 2), JInt (frame_count s), JBool (running s),
      JBool (picam s \<noteq> None)] \<and>
   elapsed_at now s = now - start_time s \<and>
   (start_time s \<le> now \<longrightarrow>
      actual_fps_at now s =
        (if elapsed_at now s = 0 then 0 else float_div (frame_count s) (elapsed_at now s))) \<and>
   \<bar>float_div m x - real_of_int m / x\<bar> \<le> \<bar>real_of_int m / x\<bar> / 2 ^ 53 \<and>
   (\<exists>k::int. py_round (actual_fps_at now s) 2 = of_int k / 100) \<and>
   \<bar>py_round (actual_fps_at now s) 2 - actual_fps_at now s\<bar> \<le> 1 / 200 \<and>
   (now \<le> now' \<and> list_all (\<lambda>e. \<not> is_cycle e) es \<longrightarrow>
      elapsed_at now (feed sys) \<le> elapsed_at now' (feed (run save es sys)) \<and>
      frame_count (feed (run save es sys)) = frame_count (feed sys))"
proof -
  have 1: "step save (Call_stats now) sys =
      sys\<lparr>out := out sys @ [Reply (get_stats now (feed sys))]\<rparr>"
    by simp
  have 2: "elapsed_at now s = now - start_time s"
    by (simp add: elapsed_at_def)
  have 3: "start_time s \<le> now \<Longrightarrow> actual_fps_at now s =
        (if elapsed_at now s = 0 then 0 else float_div (frame_count s) (elapsed_at now s))"
    by (simp add: actual_fps_at_def elapsed_at_def)
  have 4: "now \<le> now' \<Longrightarrow> list_all (\<lambda>e. \<not> is_cycle e) es \<Longrightarrow>
      elapsed_at now (feed sys) \<le> elapsed_at now' (feed (run save es sys)) \<and>
      frame_count (feed (run save es sys)) = frame_count (feed sys)"
    by (simp add: elapsed_at_def run_start_time run_frame_count)
  from 1 2 3 4 get_stats_keys [of now s] get_stats_values [of now s]
    py_round_grid [of "actual_fps_at now s"] py_round_near [of "actual_fps_at now s"]
    float_div_near [of m x]
  show ?thesis by blast
qed

text \<open>Three frames in 40 s: the float quotient is just below 0.075, and the reply has 0.07.\<close>

theorem stats_computation_witness:
  "map snd (get_stats 41
      (publishes [(''a'', 1), (''b'', 2), (''c'', 3)] (CameraStream_init ''left'' 0 1))) =
     [JStr ''left'', JInt 0, JInt 10, JNum (7 / 100), JInt 3, JBool False, JBool False] \<and>
   frame_count (feed (run (\<lambda>img q. Inr ''jpeg'') [Call_stats 4, Viewer_advance 0, Call_stats 5]
      (system_init ''left'' 0 1))) = 0"
proof -
  let ?s = "publishes [(''a'', 1), (''b'', 2), (''c'', 3)] (CameraStream_init ''left'' 0 1)"
  let ?save = "\<lambda>(img::image) (q::nat). (Inr ''jpeg'' :: py_exn + bytes)"
  let ?es = "[Call_stats 4, Viewer_advance 0, Call_stats 5]"
  have v: "start_time ?s = 1" "frame_count ?s = 3" "camera_name ?s = ''left''" "clients ?s = 0"
    "fps ?s = 10" "running ?s = False" "picam ?s = None"
    by (simp_all add: publish_def CameraStream_init_def TARGET_FPS_def)
  have e: "elapsed_at 41 ?s = 40"
    by (simp add: elapsed_at_def v del: publishes.simps)
  have h: "(41::real) \<le> 42 \<and> list_all (\<lambda>e. \<not> is_cycle e) ?es"
    by simp
  have f: "frame_count (feed (system_init ''left'' 0 1)) = 0"
    by (simp add: system_init_def CameraStream_init_def)
  have h0: "start_time ?s \<le> 41"
    by (simp add: v del: publishes.simps)
  from stats_computation [of ?save 41 "system_init ''left'' 0 1" ?s _ _ 42 ?es] h0
  have "actual_fps_at 41 ?s =
      (if elapsed_at 41 ?s = 0 then 0 else float_div (frame_count ?s) (elapsed_at 41 ?s))"
    by blast
  then have a: "actual_fps_at 41 ?s = 5404319552844595 / 72057594037927936"
    by (simp add: e v float_div_3_40 del: publishes.simps)
  from stats_computation [of ?save 41 "system_init ''left'' 0 1" ?s _ _ 42 ?es] h
  have "map snd (get_stats 41 ?s) =
     [JStr (camera_name ?s), JInt (clients ?s), JInt (fps ?s),
      JNum (py_round (actual_fps_at 41 ?s) 2), JInt (frame_count ?s), JBool (running ?s),
      JBool (picam ?s \<noteq> None)]"
    and "frame_count (feed (run ?save ?es (system_init ''left'' 0 1))) =
      frame_count (feed (system_init ''left'' 0 1))"
    by blast+
  then show ?thesis by (simp only: v a py_round_3_40 f simp_thms)
qed

subsection \<open>The client counter\<close>

lemma connects_append: "connects (fx @ fy) = connects fx + connects fy"
  by (induction fx rule: connects.induct) simp_all

lemma disconnects_append: "disconnects (fx @ fy) = disconnects fx + disconnects fy"
  by (induction fx rule: disconnects.induct) simp_all

lemma loop_finally_silent:
  "connects (snd (snd (loop_finally pc s))) = 0"
  "disconnects (snd (snd (loop_finally pc s))) = 0"
  by (simp_all add: loop_finally_def split: option.split)

lemma capture_cycle_silent:
  "connects (snd (snd (capture_cycle save env s))) = 0"
  "disconnects (snd (snd (capture_cycle save env s))) = 0"
  by (simp_all add: capture_cycle_def capture_except_def adapt_fps_def Let_def loop_finally_silent
      split: sum.split py_exn.split)

lemma capture_loop_enter_silent:
  "connects (snd (snd (capture_loop_enter save io s))) = 0"
  "disconnects (snd (snd (capture_loop_enter save io s))) = 0"
  by (cases io;
      simp add: capture_loop_enter_def init_except_def create_placeholder_frame_def
        split: sum.split py_exn.split)+

text \<open>What a step of a generator does to the counter and to the log, by whether the
  generator was open before and is open after.\<close>

lemma gen_advance_counts:
  "clients (fst (snd (gen_advance pc s))) =
     clients s + (if gen_open (fst (gen_advance pc s)) then 1 else 0) - (if gen_open pc then 1 else 0)"
  "connects (snd (snd (gen_advance pc s))) =
     (if \<not> gen_open pc \<and> gen_open (fst (gen_advance pc s)) then 1 else 0)"
  "disconnects (snd (snd (gen_advance pc s))) =
     (if gen_open pc \<and> \<not> gen_open (fst (gen_advance pc s)) then 1 else 0)"
  by (cases pc;
      simp add: gen_read_def gen_finally_def get_frame_def Let_def split: option.split)+

lemma gen_close_counts:
  "clients (fst (snd (gen_close pc s))) =
     clients s + (if gen_open (fst (gen_close pc s)) then 1 else 0) - (if gen_open pc then 1 else 0)"
  "connects (snd (snd (gen_close pc s))) =
     (if \<not> gen_open pc \<and> gen_open (fst (gen_close pc s)) then 1 else 0)"
  "disconnects (snd (snd (gen_close pc s))) =
     (if gen_open pc \<and> \<not> gen_open (fst (gen_close pc s)) then 1 else 0)"
  by (cases pc; simp add: gen_finally_def)+

text \<open>The counter is the number of open generators, and the log has one connection more
  than disconnections for each of them.\<close>

lemma viewer_to_counter:
  assumes fin: "finite {j. gen_open (viewers sys j)}"
    and cl: "clients (feed sys) = int (card {j. gen_open (viewers sys j)})"
    and lg: "connects (out sys) = disconnects (out sys) + card {j. gen_open (viewers sys j)}"
    and r1: "clients (fst (snd r)) =
       clients (feed sys) + (if gen_open (fst r) then 1 else 0)
         - (if gen_open (viewers sys i) then 1 else 0)"
    and r2: "connects (snd (snd r)) =
       (if \<not> gen_open (viewers sys i) \<and> gen_open (fst r) then 1 else 0)"
    and r3: "disconnects (snd (snd r)) =
       (if gen_open (viewers sys i) \<and> \<not> gen_open (fst r) then 1 else 0)"
  shows "finite {j. gen_open (viewers (viewer_to sys i r) j)} \<and>
     clients (feed (viewer_to sys i r)) = int (card {j. gen_open (viewers (viewer_to sys i r) j)}) \<and>
     connects (out (viewer_to sys i r)) =
       disconnects (out (viewer_to sys i r)) + card {j. gen_open (viewers (viewer_to sys i r) j)}"
proof -
  let ?A = "{j. gen_open (viewers sys j)}"
  let ?A' = "{j. gen_open (viewers (viewer_to sys i r) j)}"
  have A': "?A' = (if gen_open (fst r) then insert i ?A else ?A - {i})"
    by (auto simp: viewer_to_def)
  have fin': "finite ?A'"
    by (simp only: A') (simp add: fin)
  have mem: "i \<in> ?A \<longleftrightarrow> gen_open (viewers sys i)" by simp
  have c: "card ?A' + (if gen_open (viewers sys i) then 1 else 0) =
      card ?A + (if gen_open (fst r) then 1 else 0)"
  proof (cases "gen_open (fst r)")
    case now: True
    show ?thesis
    proof (cases "gen_open (viewers sys i)")
      case True
      then have "insert i ?A = ?A" by auto
      then have "card ?A' = card ?A" by (simp only: A' now if_True)
      with now True show ?thesis by simp
    next
      case False
      then have "card (insert i ?A) = Suc (card ?A)"
        using fin by (simp only: card_insert_disjoint mem not_False_eq_True)
      then have "card ?A' = Suc (card ?A)" by (simp only: A' now if_True)
      with now False show ?thesis by simp
    qed
  next
    case now: False
    show ?thesis
    proof (cases "gen_open (viewers sys i)")
      case True
      then have "Suc (card (?A - {i})) = card ?A"
        using fin by (simp only: card_Suc_Diff1 mem)
      then have "Suc (card ?A') = card ?A" by (simp only: A' now if_False)
      with now True show ?thesis by simp
    next
      case False
      then have "?A - {i} = ?A" by auto
      then have "card ?A' = card ?A" by (simp only: A' now if_False)
      with now False show ?thesis by simp
    qed
  qed
  have f: "feed (viewer_to sys i r) = fst (snd r)"
    and o: "out (viewer_to sys i r) = out sys @ snd (snd r)"
    by (simp_all add: viewer_to_def)
  have 2: "clients (feed (viewer_to sys i r)) = int (card ?A')"
    using c cl r1 by (simp only: f split: if_splits) simp_all
  have 3: "connects (out (viewer_to sys i r)) = disconnects (out (viewer_to sys i r)) + card ?A'"
    using c lg r2 r3 by (simp only: o connects_append disconnects_append split: if_splits) simp_all
  from fin' 2 3 show ?thesis by (intro conjI)
qed

lemma step_counter:
  assumes inv: "counter_inv sys" and e: "\<not> is_preempt e"
  shows "counter_inv (step save e sys)"
proof -
  from inv have fin: "finite {j. gen_open (viewers sys j)}"
    and cl: "clients (feed sys) = int (card {j. gen_open (viewers sys j)})"
    and lg: "connects (out sys) = disconnects (out sys) + card {j. gen_open (viewers sys j)}"
    and pn: "pending sys = (\<lambda>i. None)"
    by (simp_all add: counter_inv_def)
  show ?thesis
  proof (cases e)
    case (Thread_start io)
    with inv show ?thesis
      by (simp add: counter_inv_def thread_to_def capture_loop_enter_fields
          capture_loop_enter_silent connects_append disconnects_append)
  next
    case (Thread_cycle env)
    with inv show ?thesis
      by (simp add: counter_inv_def thread_to_def capture_cycle_fields capture_cycle_silent
          connects_append disconnects_append)
  next
    case Call_stop
    with inv show ?thesis by (simp add: counter_inv_def stop_def)
  next
    case (Viewer_advance i)
    let ?sys' = "viewer_to sys i (gen_advance (viewers sys i) (feed sys))"
    have "finite {j. gen_open (viewers ?sys' j)} \<and>
       clients (feed ?sys') = int (card {j. gen_open (viewers ?sys' j)}) \<and>
       connects (out ?sys') = disconnects (out ?sys') + card {j. gen_open (viewers ?sys' j)}"
      using fin cl lg by (rule viewer_to_counter) (rule gen_advance_counts)+
    moreover have "pending ?sys' = (\<lambda>i. None)" by (simp add: viewer_to_def pn)
    moreover have "step save e sys = ?sys'" by (simp add: Viewer_advance pn)
    ultimately show ?thesis by (simp only: counter_inv_def simp_thms)
  next
    case (Viewer_close i)
    let ?sys' = "viewer_to sys i (gen_close (viewers sys i) (feed sys))"
    have "finite {j. gen_open (viewers ?sys' j)} \<and>
       clients (feed ?sys') = int (card {j. gen_open (viewers ?sys' j)}) \<and>
       connects (out ?sys') = disconnects (out ?sys') + card {j. gen_open (viewers ?sys' j)}"
      using fin cl lg by (rule viewer_to_counter) (rule gen_close_counts)+
    moreover have "pending ?sys' = (\<lambda>i. None)" by (simp add: viewer_to_def pn)
    moreover have "step save e sys = ?sys'" by (simp add: Viewer_close pn)
    ultimately show ?thesis by (simp only: counter_inv_def simp_thms)
  next
    case (Call_stats now)
    with inv show ?thesis by (simp add: counter_inv_def connects_append disconnects_append)
  next
    case (Viewer_preempt i)
    with e show ?thesis by simp
  qed
qed

lemma run_counter:
  "counter_inv sys \<Longrightarrow> list_all (\<lambda>e. \<not> is_preempt e) es \<Longrightarrow> counter_inv (run save es sys)"
  by (induction es arbitrary: sys) (simp_all add: step_counter)

lemma init_counter: "counter_inv (system_init name index now)"
  by (simp add: counter_inv_def system_init_def CameraStream_init_def)

text \<open>As long as no thread is switched out inside an update of the counter, the counter
  is the number of connections logged minus the number of disconnections logged, and the
  number of open generators; closing a suspended generator takes 1 from it and the first
  step of a new one adds 1.\<close>

lemma counter_without_preemption:
  assumes "list_all (\<lambda>e. \<not> is_preempt e) es"
  shows "clients (feed (run save es (system_init name index now))) =
       int (connects (out (run save es (system_init name index now)))) -
       int (disconnects (out (run save es (system_init name index now))))"
    and "clients (feed (run save es (system_init name index now))) =
       int (card {j. gen_open (viewers (run save es (system_init name index now)) j)})"
    and "0 \<le> clients (feed (run save es (system_init name index now)))"
proof -
  have "counter_inv (run save es (system_init name index now))"
    using init_counter assms by (rule run_counter)
  then show "clients (feed (run save es (system_init name index now))) =
       int (connects (out (run save es (system_init name index now)))) -
       int (disconnects (out (run save es (system_init name index now))))"
    and "clients (feed (run save es (system_init name index now))) =
       int (card {j. gen_open (viewers (run save es (system_init name index now)) j)})"
    and "0 \<le> clients (feed (run save es (system_init name index now)))"
    by (simp_all add: counter_inv_def)
qed

lemma uninterrupted_updates:
  "pending sys i = None \<Longrightarrow> viewers sys i = Gen_created \<Longrightarrow>
     clients (feed (step save (Viewer_advance i) sys)) = clients (feed sys) + 1"
  "pending sys i = None \<Longrightarrow> viewers sys i = Gen_yielded \<Longrightarrow>
     clients (feed (step save (Viewer_close i) sys)) = clients (feed sys) - 1 \<and>
     viewers (step save (Viewer_close i) sys) i = Gen_closed"
  by (simp_all add: viewer_to_def gen_read_def gen_finally_def get_frame_def Let_def
      split: option.split)

text \<open>
  C8. The claim is that, starting at 0, after \<open>C\<close> connections and \<open>D \<le> C\<close> disconnections
  the counter is \<open>C - D\<close> and never negative under any interleaving. The code does not keep
  it: the updates of the counter take no lock. Two viewers connect while a frame is
  cached, and the thread of viewer 0 is switched out between the load and the store of its
  \<^verbatim>\<open>clients += 1\<close> while viewer 1 connects. Both generators are then suspended at
  \<^verbatim>\<open>yield\<close>, two connections and no disconnection are logged, and the counter is 1. After
  both viewers have disconnected, both generators are finished, two disconnections are
  logged, and the counter is \<open>-1\<close>.
\<close>

theorem client_counter_lost_update:
  "clients (feed (run (\<lambda>img q. Inr ''jpeg'')
      [Thread_start Init_returns,
       Thread_cycle \<lparr>loop_start = 0, capture_array = Inr [], frame_time = 0, loop_end = 0\<rparr>,
       Viewer_preempt 0, Viewer_advance 1, Viewer_advance 0]
      (system_init ''left'' 0 0))) = 1 \<and>
   viewers (run (\<lambda>img q. Inr ''jpeg'')
      [Thread_start Init_returns,
       Thread_cycle \<lparr>loop_start = 0, capture_array = Inr [], frame_time = 0, loop_end = 0\<rparr>,
       Viewer_preempt 0, Viewer_advance 1, Viewer_advance 0]
      (system_init ''left'' 0 0)) 0 = Gen_yielded \<and>
   viewers (run (\<lambda>img q. Inr ''jpeg'')
      [Thread_start Init_returns,
       Thread_cycle \<lparr>loop_start = 0, capture_array = Inr [], frame_time = 0, loop_end = 0\<rparr>,
       Viewer_preempt 0, Viewer_advance 1, Viewer_advance 0]
      (system_init ''left'' 0 0)) 1 = Gen_yielded \<and>
   connects (out (run (\<lambda>img q. Inr ''jpeg'')
      [Thread_start Init_returns,
       Thread_cycle \<lparr>loop_start = 0, capture_array = Inr [], frame_time = 0, loop_end = 0\<rparr>,
       Viewer_preempt 0, Viewer_advance 1, Viewer_advance 0]
      (system_init ''left'' 0 0))) = 2 \<and>
   disconnects (out (run (\<lambda>img q. Inr ''jpeg'')
      [Thread_start Init_returns,
       Thread_cycle \<lparr>loop_start = 0, capture_array = Inr [], frame_time = 0, loop_end = 0\<rparr>,
       Viewer_preempt 0, Viewer_advance 1, Viewer_advance 0]
      (system_init ''left'' 0 0))) = 0 \<and>
   clients (feed (run (\<lambda>img q. Inr ''jpeg'')
      [Thread_start Init_returns,
       Thread_cycle \<lparr>loop_start = 0, capture_array = Inr [], frame_time = 0, loop_end = 0\<rparr>,
       Viewer_preempt 0, Viewer_advance 1, Viewer_advance 0, Viewer_close 0, Viewer_close 1]
      (system_init ''left'' 0 0))) = - 1 \<and>
   viewers (run (\<lambda>img q. Inr ''jpeg'')
      [Thread_start Init_returns,
       Thread_cycle \<lparr>loop_start = 0, capture_array = Inr [], frame_time = 0, loop_end = 0\<rparr>,
       Viewer_preempt 0, Viewer_advance 1, Viewer_advance 0, Viewer_close 0, Viewer_close 1]
      (system_init ''left'' 0 0)) 0 = Gen_closed \<and>
   viewers (run (\<lambda>img q. Inr ''jpeg'')
      [Thread_start Init_returns,
       Thread_cycle \<lparr>loop_start = 0, capture_array = Inr [], frame_time = 0, loop_end = 0\<rparr>,
       Viewer_preempt 0, Viewer_advance 1, Viewer_advance 0, Viewer_close 0, Viewer_close 1]
      (system_init ''left'' 0 0)) 1 = Gen_closed \<and>
   disconnects (out (run (\<lambda>img q. Inr ''jpeg'')
      [Thread_start Init_returns,
       Thread_cycle \<lparr>loop_start = 0, capture_array = Inr [], frame_time = 0, loop_end = 0\<rparr>,
       Viewer_preempt 0, Viewer_advance 1, Viewer_advance 0, Viewer_close 0, Viewer_close 1]
      (system_init ''left'' 0 0))) = 2"
  by (simp add: system_init_def CameraStream_init_def TARGET_FPS_def MIN_FPS_def thread_to_def
      viewer_to_def capture_loop_enter_def capture_cycle_def adapt_fps_def publish_def
      JPEG_QUALITY_def gen_load_def gen_store_def gen_read_def gen_finally_def get_frame_def)

subsection \<open>A feed without a camera\<close>

lemma yields_append: "yields (fx @ fy) = yields fx @ yields fy"
  by (induction fx rule: yields.induct) simp_all

lemma capture_cycle_pc:
  "fst (capture_cycle save env s) \<noteq> Initializing"
  "fst (capture_cycle save env s) \<noteq> Degraded"
  by (simp_all add: capture_cycle_def capture_except_def adapt_fps_def Let_def loop_finally_fields
      split: sum.split py_exn.split)

lemma step_running:
  "thread sys \<noteq> Initializing \<Longrightarrow>
     running (feed (step save e sys)) = (running (feed sys) \<and> e \<noteq> Call_stop) \<and>
     thread (step save e sys) \<noteq> Initializing"
  by (cases e)
    (simp_all add: thread_to_def viewer_to_def capture_cycle_fields capture_cycle_pc
      gen_advance_fields gen_close_fields gen_store_fields stop_def
      split: option.split prod.split)

lemma run_running:
  "thread sys \<noteq> Initializing \<Longrightarrow>
     running (feed (run save es sys)) = (running (feed sys) \<and> Call_stop \<notin> set es)"
proof (induction es arbitrary: sys)
  case Nil
  show ?case by simp
next
  case (Cons e es)
  from step_running [OF Cons.prems, of save e]
  have r: "running (feed (step save e sys)) = (running (feed sys) \<and> e \<noteq> Call_stop)"
    and t: "thread (step save e sys) \<noteq> Initializing"
    by simp_all
  from Cons.IH [OF t] r show ?case by auto
qed

lemma gen_advance_yields:
  "frame s = Some b \<Longrightarrow> set (yields (snd (snd (gen_advance pc s)))) \<subseteq> {multipart b}"
  by (cases pc) (simp_all add: gen_read_def gen_finally_def get_frame_def)

lemma gen_close_yields: "yields (snd (snd (gen_close pc s))) = []"
  by (cases pc) (simp_all add: gen_finally_def)

lemma gen_store_yields:
  "frame s = Some b \<Longrightarrow> set (yields (snd (snd (gen_store pc v s)))) \<subseteq> {multipart b}"
  by (cases pc) (simp_all add: gen_store_def gen_read_def get_frame_def)

lemma gen_store_live:
  "frame s = Some b \<Longrightarrow> pc \<noteq> Gen_closed \<Longrightarrow>
     fst (gen_store pc v s) = Gen_yielded \<and> yields (snd (snd (gen_store pc v s))) = [multipart b]"
  by (cases pc) (simp_all add: gen_store_def gen_read_def get_frame_def)

lemma gen_advance_live:
  "frame s = Some b \<Longrightarrow> 0 < fps s \<Longrightarrow> pc \<noteq> Gen_closed \<Longrightarrow>
     fst (gen_advance pc s) = Gen_yielded \<and> yields (snd (snd (gen_advance pc s))) = [multipart b]"
  by (cases pc) (simp_all add: gen_read_def get_frame_def)

lemma step_degraded:
  assumes "degraded_inv name b sys"
  shows "degraded_inv name b (step save e sys)"
proof (cases e)
  case (Thread_start io)
  with assms show ?thesis by (simp add: degraded_inv_def)
next
  case (Thread_cycle env)
  with assms show ?thesis by (simp add: degraded_inv_def)
next
  case Call_stop
  with assms show ?thesis by (simp add: degraded_inv_def stop_def)
next
  case (Viewer_advance i)
  from assms have f: "frame (feed sys) = Some b" by (simp add: degraded_inv_def)
  from f have "set (yields (snd (snd (gen_advance (viewers sys i) (feed sys))))) \<subseteq> {multipart b}"
    by (rule gen_advance_yields)
  moreover from f
  have "set (yields (snd (snd (gen_store (viewers sys i) v (feed sys))))) \<subseteq> {multipart b}" for v
    by (rule gen_store_yields)
  ultimately show ?thesis using assms Viewer_advance
    by (simp add: degraded_inv_def viewer_to_def gen_advance_fields gen_store_fields yields_append
        split: option.split)
next
  case (Viewer_close i)
  with assms show ?thesis
    by (simp add: degraded_inv_def viewer_to_def gen_close_fields yields_append gen_close_yields
        split: option.split)
next
  case (Call_stats now)
  with assms show ?thesis by (simp add: degraded_inv_def yields_append)
next
  case (Viewer_preempt i)
  with assms show ?thesis
    by (simp add: degraded_inv_def split: option.split prod.split)
qed

lemma run_degraded: "degraded_inv name b sys \<Longrightarrow> degraded_inv name b (run save es sys)"
  by (induction es arbitrary: sys) (simp_all add: step_degraded)

lemma enter_degraded:
  assumes "io = Ctor_raises (Exception m) \<or> io = Setup_raises (Exception m)"
    and "save (Image_new ''RGB'' RESOLUTION (50, 50, 50)) 50 = Inr b"
  shows "degraded_inv name b (step save (Thread_start io) (system_init name index now)) \<and>
     running (feed (step save (Thread_start io) (system_init name index now))) \<and>
     thread (step save (Thread_start io) (system_init name index now)) \<noteq> Initializing"
  using assms
  by (auto simp: degraded_inv_def system_init_def CameraStream_init_def thread_to_def
      capture_loop_enter_def init_except_def create_placeholder_frame_def)

lemma advance_degraded:
  assumes "degraded_inv name b sys" and "viewers sys i \<noteq> Gen_closed"
  shows "viewers (step save (Viewer_advance i) sys) i \<noteq> Gen_closed \<and>
     yields (out (step save (Viewer_advance i) sys)) = yields (out sys) @ [multipart b]"
proof -
  from assms(1) have f: "frame (feed sys) = Some b" and r: "0 < fps (feed sys)"
    by (simp_all add: degraded_inv_def TARGET_FPS_def)
  from gen_advance_live [OF f r assms(2)] gen_store_live [OF f assms(2)] show ?thesis
    by (simp add: viewer_to_def yields_append split: option.split)
qed

lemma advances_degraded:
  "degraded_inv name b sys \<Longrightarrow> viewers sys i \<noteq> Gen_closed \<Longrightarrow>
     yields (out (run save (replicate n (Viewer_advance i)) sys)) =
       yields (out sys) @ replicate n (multipart b)"
proof (induction n arbitrary: sys)
  case 0
  show ?case by simp
next
  case (Suc n)
  let ?sys' = "step save (Viewer_advance i) sys"
  from advance_degraded [OF Suc.prems, of save]
  have v: "viewers ?sys' i \<noteq> Gen_closed"
    and y: "yields (out ?sys') = yields (out sys) @ [multipart b]"
    by simp_all
  have d: "degraded_inv name b ?sys'" using Suc.prems(1) by (rule step_degraded)
  from Suc.IH [OF d v] y show ?case
    by (simp only: replicate_Suc run.simps) simp
qed

lemma float_div_0: "float_div 0 x = 0"
  by (simp add: float_div_def float_round_def)

lemma py_round_0: "py_round 0 2 = 0"
  by (simp add: py_round_def Let_def)

text \<open>The claim C2 says that the statistics of such a feed show the running flag false and
  the frame counter at 1. With a camera that cannot be opened, the statistics show the
  running flag true and the frame counter at 0.\<close>

theorem degraded_stats_counterexample:
  "map snd (get_stats 1 (feed (step (\<lambda>img q. Inr ''gray'')
      (Thread_start (Ctor_raises (Exception ''no camera''))) (system_init ''left'' 0 0)))) =
     [JStr ''left'', JInt 0, JInt 10, JNum 0, JInt 0, JBool True, JBool False] \<and>
   thread (step (\<lambda>img q. Inr ''gray'')
      (Thread_start (Ctor_raises (Exception ''no camera''))) (system_init ''left'' 0 0)) = Degraded"
  by (simp add: get_stats_def system_init_def CameraStream_init_def thread_to_def
      capture_loop_enter_def init_except_def create_placeholder_frame_def TARGET_FPS_def
      actual_fps_at_def elapsed_at_def float_div_0 py_round_0)

text \<open>
  C2, amended. When the camera cannot be opened and the placeholder is encoded, then after
  any further events: the thread has returned; the stored frame is the encoding of a
  \<open>RESOLUTION\<close> image at quality 50, below \<open>JPEG_QUALITY\<close>; the statistics show no camera, a
  frame counter of 0, 0 frames per second, and a running flag that is true until
  \<^verbatim>\<open>stop\<close> is called; every chunk yielded so far is that frame in its envelope; and a
  generator that has not finished yields it again at each of any number of further steps.
\<close>

theorem degraded_feed:
  fixes es :: "event list" and name :: string and index :: int and now :: real
  assumes io: "io = Ctor_raises (Exception m) \<or> io = Setup_raises (Exception m)"
    and enc: "save (Image_new ''RGB'' RESOLUTION (50, 50, 50)) 50 = Inr b"
  defines "sys \<equiv> run save es (step save (Thread_start io) (system_init name index now))"
  shows "thread sys = Degraded \<and>
     get_frame (feed sys) = Some b \<and>
     50 < JPEG_QUALITY \<and>
     map snd (get_stats t (feed sys)) =
       [JStr name, JInt (clients (feed sys)), JInt TARGET_FPS, JNum 0, JInt 0,
        JBool (Call_stop \<notin> set es), JBool False] \<and>
     set (yields (out sys)) \<subseteq> {multipart b} \<and>
     (viewers sys i \<noteq> Gen_closed \<longrightarrow>
        yields (out (run save (replicate n (Viewer_advance i)) sys)) =
          yields (out sys) @ replicate n (multipart b))"
proof -
  let ?sys0 = "step save (Thread_start io) (system_init name index now)"
  from enter_degraded [of io m save b name index now] io enc
  have d0: "degraded_inv name b ?sys0" and r0: "running (feed ?sys0)"
    and t0: "thread ?sys0 \<noteq> Initializing"
    by simp_all
  have d: "degraded_inv name b sys"
    unfolding sys_def using d0 by (rule run_degraded)
  have r: "running (feed sys) = (Call_stop \<notin> set es)"
    unfolding sys_def using run_running [OF t0, of save es] r0 by simp
  from d have f: "thread sys = Degraded" "frame (feed sys) = Some b" "picam (feed sys) = None"
    "frame_count (feed sys) = 0" "fps (feed sys) = TARGET_FPS" "camera_name (feed sys) = name"
    "set (yields (out sys)) \<subseteq> {multipart b}"
    by (simp_all add: degraded_inv_def)
  have a: "actual_fps_at t (feed sys) = 0"
    by (simp add: actual_fps_at_def f float_div_0)
  have s: "map snd (get_stats t (feed sys)) =
       [JStr name, JInt (clients (feed sys)), JInt TARGET_FPS, JNum 0, JInt 0,
        JBool (Call_stop \<notin> set es), JBool False]"
    by (simp only: get_stats_values f a r py_round_0) simp
  have q: "50 < JPEG_QUALITY" by (simp add: JPEG_QUALITY_def)
  have l: "viewers sys i \<noteq> Gen_closed \<Longrightarrow>
        yields (out (run save (replicate n (Viewer_advance i)) sys)) =
          yields (out sys) @ replicate n (multipart b)"
    using d by (rule advances_degraded)
  from f(1,2,7) s q l show ?thesis by (simp add: get_frame_def)
qed

theorem degraded_feed_witness:
  "thread (run (\<lambda>img q. Inr ''gray'') [Viewer_advance 0]
      (step (\<lambda>img q. Inr ''gray'') (Thread_start (Ctor_raises (Exception ''no camera'')))
        (system_init ''left'' 0 0))) = Degraded \<and>
   yields (out (run (\<lambda>img q. Inr ''gray'') (replicate 2 (Viewer_advance 0))
      (run (\<lambda>img q. Inr ''gray'') [Viewer_advance 0]
        (step (\<lambda>img q. Inr ''gray'') (Thread_start (Ctor_raises (Exception ''no camera'')))
          (system_init ''left'' 0 0))))) =
     yields (out (run (\<lambda>img q. Inr ''gray'') [Viewer_advance 0]
        (step (\<lambda>img q. Inr ''gray'') (Thread_start (Ctor_raises (Exception ''no camera'')))
          (system_init ''left'' 0 0)))) @ replicate 2 (multipart ''gray'')"
proof -
  let ?save = "\<lambda>(img::image) (q::nat). (Inr ''gray'' :: py_exn + bytes)"
  let ?io = "Ctor_raises (Exception ''no camera'')"
  let ?sys = "run ?save [Viewer_advance 0] (step ?save (Thread_start ?io) (system_init ''left'' 0 0))"
  have h1: "?io = Ctor_raises (Exception ''no camera'') \<or> ?io = Setup_raises (Exception ''no camera'')"
    by simp
  have h2: "?save (Image_new ''RGB'' RESOLUTION (50, 50, 50)) 50 = Inr ''gray''"
    by simp
  have h3: "viewers ?sys 0 \<noteq> Gen_closed"
    by (simp add: system_init_def CameraStream_init_def thread_to_def viewer_to_def
        capture_loop_enter_def init_except_def create_placeholder_frame_def gen_read_def
        get_frame_def)
  from degraded_feed [where io = ?io and m = "''no camera''" and save = ?save and b = "''gray''"
      and es = "[Viewer_advance 0]" and name = "''left''" and index = 0 and now = 0
      and i = 0 and n = 2, OF h1 h2] h3
  show ?thesis by blast
qed

subsection \<open>Leaving the loop\<close>











end
